theory Spec2Isabelle
  imports Main
begin

section \<open>Strings, the filename sanitizer and the playlist URL parser\<close>

text \<open>
  Python strings are modelled as \<^typ>\<open>string\<close>. Both functions of this section look at
  one character at a time and keep ASCII characters only, so it makes no difference
  whether a \<^typ>\<open>char\<close> stands for a code point below 256 or for a byte of the UTF-8
  encoding: every non-ASCII character is outside \<open>valid_chars\<close> and outside
  \<open>[a-zA-Z0-9]\<close>.
\<close>

definition ascii_lowercase :: string where
  "ascii_lowercase = ''abcdefghijklmnopqrstuvwxyz''"

definition ascii_uppercase :: string where
  "ascii_uppercase = ''ABCDEFGHIJKLMNOPQRSTUVWXYZ''"

definition ascii_letters :: string where
  "ascii_letters = ascii_lowercase @ ascii_uppercase"

definition digits :: string where
  "digits = ''0123456789''"

text \<open>\<^verbatim>\<open>valid_chars = f"-_.() {string.ascii_letters}{string.digits}"\<close>\<close>

definition valid_chars :: string where
  "valid_chars = ''-_.() '' @ ascii_letters @ digits"

text \<open>\<^verbatim>\<open>return ''.join(c for c in filename if c in valid_chars)\<close>\<close>

definition sanitize_filename :: "string \<Rightarrow> string" where
  "sanitize_filename filename = filter (\<lambda>c. c \<in> set valid_chars) filename"

text \<open>
  The character set as the specification words it: ASCII letters, digits and the six
  characters \<open>-_.() \<close>, by character code.
\<close>

definition is_ascii_letter :: "char \<Rightarrow> bool" where
  "is_ascii_letter c \<longleftrightarrow>
     (97 \<le> (of_char c :: nat) \<and> (of_char c :: nat) \<le> 122) \<or>
     (65 \<le> (of_char c :: nat) \<and> (of_char c :: nat) \<le> 90)"

definition is_ascii_digit :: "char \<Rightarrow> bool" where
  "is_ascii_digit c \<longleftrightarrow> 48 \<le> (of_char c :: nat) \<and> (of_char c :: nat) \<le> 57"

definition allowed_char :: "char \<Rightarrow> bool" where
  "allowed_char c \<longleftrightarrow>
     is_ascii_letter c \<or> is_ascii_digit c \<or>
     c = CHR ''-'' \<or> c = CHR ''_'' \<or> c = CHR ''.'' \<or>
     c = CHR ''('' \<or> c = CHR '')'' \<or> c = CHR '' ''"

text \<open>
  The character class \<open>[a-zA-Z0-9]\<close> of the two patterns of \<open>extract_playlist_id\<close>.
\<close>

definition alnum :: "char \<Rightarrow> bool" where
  "alnum c \<longleftrightarrow> is_ascii_letter c \<or> is_ascii_digit c"

text \<open>
  \<^verbatim>\<open>re.search(lit + '([a-zA-Z0-9]+)', s)\<close> for a literal \<open>lit\<close>: the scan tries the
  positions of \<open>s\<close> from left to right; at a position the literal must be there,
  followed by at least one alphanumeric character, and the greedy \<open>+\<close> captures the
  whole run of them. The result is group 1 of the leftmost match, \<open>None\<close> without one.
\<close>

fun re_search_group :: "string \<Rightarrow> string \<Rightarrow> string option" where
  "re_search_group lit [] = None"
| "re_search_group lit (c # cs) =
     (if take (length lit) (c # cs) = lit
         \<and> takeWhile alnum (drop (length lit) (c # cs)) \<noteq> []
      then Some (takeWhile alnum (drop (length lit) (c # cs)))
      else re_search_group lit cs)"

text \<open>
  \<^verbatim>\<open>
  patterns = [r'playlist/([a-zA-Z0-9]+)', r'playlist:([a-zA-Z0-9]+)']
  for pattern in patterns:
      match = re.search(pattern, playlist_url)
      if match:
          return match.group(1)
  return None
  \<close>
\<close>

definition extract_playlist_id :: "string \<Rightarrow> string option" where
  "extract_playlist_id playlist_url =
     (case re_search_group ''playlist/'' playlist_url of
        Some g \<Rightarrow> Some g
      | None \<Rightarrow>
         (case re_search_group ''playlist:'' playlist_url of
            Some g \<Rightarrow> Some g
          | None \<Rightarrow> None))"

text \<open>
  What it means for a pattern to match: \<open>occurs lit s\<close> says that the literal followed by
  at least one alphanumeric character is somewhere in \<open>s\<close>; \<open>leftmost_capture lit s g\<close>
  says that \<open>g\<close> is the maximal alphanumeric run after the leftmost such place.
\<close>

definition occurs :: "string \<Rightarrow> string \<Rightarrow> bool" where
  "occurs lit s \<longleftrightarrow>
     (\<exists>pre g post. s = pre @ lit @ g @ post \<and> g \<noteq> [] \<and> list_all alnum g)"

definition leftmost_capture :: "string \<Rightarrow> string \<Rightarrow> string \<Rightarrow> bool" where
  "leftmost_capture lit s g \<longleftrightarrow>
     (\<exists>pre post. s = pre @ lit @ g @ post \<and> g \<noteq> [] \<and> list_all alnum g
        \<and> (post = [] \<or> \<not> alnum (hd post))
        \<and> (\<forall>pre' r. length pre' < length pre \<longrightarrow> s = pre' @ lit @ r
              \<longrightarrow> r = [] \<or> \<not> alnum (hd r)))"



section \<open>Data: catalog items, progress record, application state\<close>

text \<open>
  Exceptions are values. Everything the code can raise inside \<open>download_track\<close> and
  \<open>download_worker\<close> is caught there by \<open>except Exception as e\<close>; the handlers only use
  \<open>str(e)\<close>, which \<open>str_exn\<close> gives.
\<close>

datatype exn = TypeError string | IndexError string | ExternalError string

fun str_exn :: "exn \<Rightarrow> string" where
  "str_exn (TypeError m) = m"
| "str_exn (IndexError m) = m"
| "str_exn (ExternalError m) = m"

text \<open>
  A playlist item as the catalog returns it. \<open>track_info['track']\<close> is \<open>None\<close> for a slot
  whose entry is unavailable; otherwise it is an object with a \<open>type\<close>, a list of
  \<open>artists\<close> (of which the code reads the \<open>name\<close>) and a \<open>name\<close>.
\<close>

record track =
  tr_type :: string
  tr_artists :: "string list"
  tr_name :: string

type_synonym track_info = "track option"

text \<open>
  The dictionary \<open>download_progress\<close>: the keys \<open>current\<close>, \<open>total\<close> and \<open>status\<close> are
  always there; \<open>current_track\<close>, \<open>error\<close> and \<open>successful\<close> are added by a run.
\<close>

record progress =
  p_current :: nat
  p_total :: nat
  p_status :: string
  p_current_track :: "string option"
  p_error :: "string option"
  p_successful :: "nat option"

text \<open>What the external libraries are called with, in the order of the calls.\<close>

datatype call =
    Search string
  | Download string string
  | Worker nat

text \<open>
  The state: the three attributes of \<open>SpotifyDownloaderAPI\<close> the operations below read
  and write (\<open>is_downloading\<close>, \<open>download_progress\<close>, \<open>download_path\<close>), the paths that
  exist on the file system (\<open>files\<close>), and three observation logs that the code does not
  have: \<open>snapshots\<close> records every value \<open>download_progress\<close> takes (what a poller of
  \<open>get_download_progress\<close> can see), \<open>calls\<close> the external searches and downloads and
  the invocations of \<open>download_track\<close>, \<open>threads\<close> the background threads started.
\<close>

record state =
  is_downloading :: bool
  download_progress :: progress
  download_path :: string
  files :: "string set"
  snapshots :: "progress list"
  calls :: "call list"
  threads :: "string list"

text \<open>
  The result of \<open>ydl.download([video_url])\<close> inside its \<open>try\<close>: it raises, or it returns;
  when it returns, the audio file may or may not have been written (the options hold
  \<open>'ignoreerrors': True\<close>, with which the library reports a failed download without
  raising).
\<close>

datatype dl_result = DlRaises exn | DlReturns bool

text \<open>
  The external collaborators of one run:
  \<^item> \<open>sp_playlist pid\<close> is \<open>self.sp.playlist(pid)['name']\<close> (raising covers a missing
    session, an unknown identifier and a network failure);
  \<^item> \<open>sp_playlist_tracks pid limit offset\<close> is
    \<open>self.sp.playlist_tracks(pid, limit=limit, offset=offset)['items']\<close>;
  \<^item> \<open>makedirs path\<close> is \<open>os.makedirs(path, exist_ok=True)\<close>, \<open>Some e\<close> when it raises;
  \<^item> \<open>quote\<close> is \<open>urllib.parse.quote\<close>;
  \<^item> \<open>search_video_ids url\<close> is
    \<open>re.findall(r"watch\?v=(\S{11})", urllib.request.urlopen(url).read().decode())\<close>;
  \<^item> \<open>ydl_download video_url outtmpl\<close> is the download and transcoding by \<open>YoutubeDL\<close>.
\<close>

record env =
  sp_playlist :: "string \<Rightarrow> exn + string"
  sp_playlist_tracks :: "string \<Rightarrow> nat \<Rightarrow> nat \<Rightarrow> exn + track_info list"
  makedirs :: "string \<Rightarrow> exn option"
  quote :: "string \<Rightarrow> string"
  search_video_ids :: "string \<Rightarrow> exn + string list"
  ydl_download :: "string \<Rightarrow> string \<Rightarrow> dl_result"

text \<open>The dictionaries the presentation-facing operations return.\<close>

datatype response = Success string | Failure string

text \<open>\<open>os.path.join\<close> on two components (POSIX).\<close>

definition path_join :: "string \<Rightarrow> string \<Rightarrow> string" where
  "path_join a b =
     (if b \<noteq> [] \<and> hd b = CHR ''/'' then b
      else if a = [] \<or> last a = CHR ''/'' then a @ b
      else a @ ''/'' @ b)"

text \<open>
  \<^verbatim>\<open>
  self.is_downloading = False
  self.download_progress = {"current": 0, "total": 0, "status": "idle"}
  self.download_path = str(Path.home() / "Downloads" / "Spotify_Downloads")
  \<close>
  The constructor, on a file system \<open>fs\<close> and with home directory \<open>home\<close>.
\<close>

definition idle_progress :: progress where
  "idle_progress =
     \<lparr>p_current = 0, p_total = 0, p_status = ''idle'',
      p_current_track = None, p_error = None, p_successful = None\<rparr>"

definition init :: "string \<Rightarrow> string set \<Rightarrow> state" where
  "init home fs =
     \<lparr>is_downloading = False,
      download_progress = idle_progress,
      download_path = path_join (path_join home ''Downloads'') ''Spotify_Downloads'',
      files = fs,
      snapshots = [idle_progress],
      calls = [],
      threads = []\<rparr>"

text \<open>
  A write to \<open>download_progress\<close> (the whole dictionary, or one key of it): the new value
  is also what a poller sees next.
\<close>

definition put_progress :: "progress \<Rightarrow> state \<Rightarrow> state" where
  "put_progress p s = s\<lparr>download_progress := p, snapshots := snapshots s @ [p]\<rparr>"

definition set_progress :: "(progress \<Rightarrow> progress) \<Rightarrow> state \<Rightarrow> state" where
  "set_progress f s = put_progress (f (download_progress s)) s"

definition log_call :: "call \<Rightarrow> state \<Rightarrow> state" where
  "log_call c s = s\<lparr>calls := calls s @ [c]\<rparr>"

section \<open>The catalog adapter: paginated track listing\<close>

text \<open>
  \<^verbatim>\<open>
  tracks = []; offset = 0; limit = 100
  while True:
      response = self.sp.playlist_tracks(playlist_id, limit=limit, offset=offset)
      tracks.extend(response['items'])
      if len(response['items']) < limit:
          break
      offset += limit
  return tracks
  \<close>
  The loop has no bound of its own: it ends when the catalog returns a short page or
  raises. It is a partial function; \<open>None\<close> is the loop that never ends. Beside the
  result, the model returns the requests made: the offset of each page and the number
  of items it held.
\<close>

definition limit :: nat where
  "limit = 100"

partial_function (option) fetch_pages ::
  "(nat \<Rightarrow> nat \<Rightarrow> exn + 'a list) \<Rightarrow> nat \<Rightarrow> 'a list \<Rightarrow> (nat \<times> nat) list
     \<Rightarrow> ((exn + 'a list) \<times> (nat \<times> nat) list) option"
where
  "fetch_pages playlist_tracks offset tracks pages =
     (case playlist_tracks limit offset of
        Inl e \<Rightarrow> Some (Inl e, pages)
      | Inr items \<Rightarrow>
          if length items < limit
          then Some (Inr (tracks @ items), pages @ [(offset, length items)])
          else fetch_pages playlist_tracks (offset + limit) (tracks @ items)
                 (pages @ [(offset, length items)]))"

declare fetch_pages.simps [code]

definition get_playlist_tracks ::
  "(nat \<Rightarrow> nat \<Rightarrow> exn + 'a list) \<Rightarrow> (exn + 'a list) option" where
  "get_playlist_tracks playlist_tracks = map_option fst (fetch_pages playlist_tracks 0 [] [])"

text \<open>
  A catalog that holds the playlist \<open>cat\<close> and answers a request with the items from
  \<open>offset\<close> on, at most \<open>limit\<close> of them.
\<close>

definition paged :: "'a list \<Rightarrow> nat \<Rightarrow> nat \<Rightarrow> exn + 'a list" where
  "paged cat lim offset = Inr (take lim (drop offset cat))"

section \<open>The worker: one track\<close>

text \<open>
  The loop over \<open>video_ids[:3]\<close>: the first download that returns ends the loop with
  \<open>True\<close>; one that raises is logged and the next candidate is tried; \<open>False\<close> after the
  last. The file written is \<open>outtmpl\<close> with the extension of the \<open>mp3\<close> postprocessor.
\<close>

fun try_candidates ::
  "env \<Rightarrow> string \<Rightarrow> string \<Rightarrow> string list \<Rightarrow> state \<Rightarrow> bool \<times> state" where
  "try_candidates E download_folder sanitized_name [] s = (False, s)"
| "try_candidates E download_folder sanitized_name (video_id # rest) s =
     (let video_url = ''https://www.youtube.com/watch?v='' @ video_id;
          outtmpl = path_join download_folder (sanitized_name @ ''.%(ext)s'');
          s1 = log_call (Download video_url outtmpl) s
      in case ydl_download E video_url outtmpl of
           DlReturns written \<Rightarrow>
             (True,
              if written
              then s1\<lparr>files :=
                        insert (path_join download_folder (sanitized_name @ ''.mp3'')) (files s1)\<rparr>
              else s1)
         | DlRaises e \<Rightarrow> try_candidates E download_folder sanitized_name rest s1)"

text \<open>
  The body of \<open>download_track\<close>, inside its outer \<open>try\<close>. \<open>Inl e\<close> is an exception that
  reaches the outer handler (\<open>track['artists'][0]\<close> on an empty list); the search and
  the downloads have handlers of their own.
\<close>

definition download_track_body ::
  "env \<Rightarrow> track_info \<Rightarrow> string \<Rightarrow> state \<Rightarrow> (exn + bool) \<times> state" where
  "download_track_body E track_info download_folder s =
     (case track_info of
        None \<Rightarrow> (Inr False, s)
      | Some track \<Rightarrow>
          if tr_type track \<noteq> ''track'' then (Inr False, s)
          else
            (case tr_artists track of
               [] \<Rightarrow> (Inl (IndexError ''list index out of range''), s)
             | artist_name # _ \<Rightarrow>
                 (let track_name = tr_name track;
                      sanitized_name = sanitize_filename (artist_name @ '' - '' @ track_name);
                      final_file = path_join download_folder (sanitized_name @ ''.mp3'')
                  in if final_file \<in> files s then (Inr True, s)
                     else
                       (let search_query =
                              quote E (track_name @ '' '' @ artist_name @ '' official'');
                            url = ''https://www.youtube.com/results?search_query=''
                                    @ search_query;
                            s1 = log_call (Search url) s
                        in case search_video_ids E url of
                             Inl e \<Rightarrow> (Inr False, s1)
                           | Inr video_ids \<Rightarrow>
                               if video_ids = [] then (Inr False, s1)
                               else
                                 (case try_candidates E download_folder sanitized_name
                                         (take 3 video_ids) s1 of
                                    (ok, s2) \<Rightarrow> (Inr ok, s2))))))"

text \<open>The outer \<open>except Exception\<close>: log and \<open>return False\<close>.\<close>

definition download_track :: "env \<Rightarrow> track_info \<Rightarrow> string \<Rightarrow> state \<Rightarrow> bool \<times> state" where
  "download_track E track_info download_folder s =
     (case download_track_body E track_info download_folder s of
        (Inl e, s') \<Rightarrow> (False, s')
      | (Inr ok, s') \<Rightarrow> (ok, s'))"

section \<open>The orchestrator: start, stop and the background run\<close>

text \<open>
  \<^verbatim>\<open>
  self.is_downloading = False
  return {"success": True, "message": "Download stopped"}
  \<close>
\<close>

definition stop_download :: "state \<Rightarrow> response \<times> state" where
  "stop_download s = (Success ''Download stopped'', s\<lparr>is_downloading := False\<rparr>)"

text \<open>
  \<^verbatim>\<open>
  if not self.is_downloading:
      threading.Thread(target=download_worker, daemon=True).start()
      return {"success": True, "message": "Download started"}
  else:
      return {"error": "Download already in progress"}
  \<close>
  Starting the thread is recorded in \<open>threads\<close>; what the thread does is
  \<open>download_worker\<close> below.
\<close>

definition start_download :: "string \<Rightarrow> state \<Rightarrow> response \<times> state" where
  "start_download playlist_url s =
     (if \<not> is_downloading s
      then (Success ''Download started'', s\<lparr>threads := threads s @ [playlist_url]\<rparr>)
      else (Failure ''Download already in progress'', s))"

text \<open>
  The label of the progress record,
  \<^verbatim>\<open>f"{track_info['track']['artists'][0]['name']} - {track_info['track']['name']}"\<close>:
  subscripting \<open>None\<close> raises \<open>TypeError\<close>, \<open>[0]\<close> on an empty list \<open>IndexError\<close>.
\<close>

definition track_label :: "track_info \<Rightarrow> exn + string" where
  "track_label track_info =
     (case track_info of
        None \<Rightarrow> Inl (TypeError (CHR 0x27 # ''NoneType'' @ CHR 0x27 # '' object is not subscriptable''))
      | Some track \<Rightarrow>
          (case tr_artists track of
             [] \<Rightarrow> Inl (IndexError ''list index out of range'')
           | artist_name # _ \<Rightarrow> Inr (artist_name @ '' - '' @ tr_name track)))"

text \<open>
  How the \<open>for\<close> loop over the tracks ends without an exception: by the \<open>return\<close> of the
  cancellation check, or after the last track, with the number of successes.
\<close>

datatype loop_exit = Cancelled | Finished nat

text \<open>
  \<^verbatim>\<open>
  for i, track_info in enumerate(tracks):
      if not self.is_downloading:
          self.download_progress["status"] = "cancelled"
          return
      self.download_progress["current"] = i + 1
      self.download_progress["current_track"] = f"..."
      if self.download_track(track_info, download_folder):
          successful_downloads += 1
  \<close>
  The foreground may call \<open>stop_download\<close> at any time; the loop reads the flag only at
  its check. \<open>stops i\<close> says that a stop request arrived between the previous check (or
  the start of the run) and the check of index \<open>i\<close>, whether during the download of the
  track before or after it.
\<close>

fun track_loop ::
  "env \<Rightarrow> (nat \<Rightarrow> bool) \<Rightarrow> string \<Rightarrow> nat \<Rightarrow> track_info list \<Rightarrow> nat \<Rightarrow> state
     \<Rightarrow> (exn + loop_exit) \<times> state" where
  "track_loop E stops download_folder i [] successful_downloads s =
     (Inr (Finished successful_downloads), s)"
| "track_loop E stops download_folder i (track_info # rest) successful_downloads s0 =
     (let s = (if stops i then snd (stop_download s0) else s0)
      in if \<not> is_downloading s
         then (Inr Cancelled, set_progress (\<lambda>p. p\<lparr>p_status := ''cancelled''\<rparr>) s)
         else
           (let s1 = set_progress (\<lambda>p. p\<lparr>p_current := i + 1\<rparr>) s
            in case track_label track_info of
                 Inl e \<Rightarrow> (Inl e, s1)
               | Inr label \<Rightarrow>
                   (let s2 = set_progress (\<lambda>p. p\<lparr>p_current_track := Some label\<rparr>) s1;
                        s3 = log_call (Worker i) s2
                    in case download_track E track_info download_folder s3 of
                         (ok, s4) \<Rightarrow>
                           track_loop E stops download_folder (i + 1) rest
                             (if ok then successful_downloads + 1 else successful_downloads)
                             s4)))"

text \<open>
  The handler of \<open>download_worker\<close>:
  \<^verbatim>\<open>
  except Exception as e:
      self.download_progress["status"] = "error"
      self.download_progress["error"] = str(e)
      self.is_downloading = False
  \<close>
\<close>

definition on_exception :: "exn \<Rightarrow> state \<Rightarrow> state" where
  "on_exception e s =
     (set_progress (\<lambda>p. p\<lparr>p_error := Some (str_exn e)\<rparr>)
        (set_progress (\<lambda>p. p\<lparr>p_status := ''error''\<rparr>) s))\<lparr>is_downloading := False\<rparr>"

definition starting_progress :: progress where
  "starting_progress =
     \<lparr>p_current = 0, p_total = 0, p_status = ''starting'',
      p_current_track = None, p_error = None, p_successful = None\<rparr>"

text \<open>
  The background run \<open>download_worker\<close> of \<open>start_download(playlist_url)\<close>. The result
  is \<open>None\<close> when the track listing never ends.
\<close>

definition download_worker ::
  "env \<Rightarrow> (nat \<Rightarrow> bool) \<Rightarrow> string \<Rightarrow> state \<Rightarrow> state option" where
  "download_worker E stops playlist_url s0 =
     (let s1 = put_progress starting_progress (s0\<lparr>is_downloading := True\<rparr>)
      in case extract_playlist_id playlist_url of
           None \<Rightarrow>
             Some (set_progress (\<lambda>p. p\<lparr>p_error := Some ''Invalid playlist URL''\<rparr>)
                     (set_progress (\<lambda>p. p\<lparr>p_status := ''error''\<rparr>) s1))
         | Some playlist_id \<Rightarrow>
             (case sp_playlist E playlist_id of
                Inl e \<Rightarrow> Some (on_exception e s1)
              | Inr name \<Rightarrow>
                  (let playlist_name = sanitize_filename name;
                       download_folder = path_join (download_path s1) playlist_name
                   in case makedirs E download_folder of
                        Some e \<Rightarrow> Some (on_exception e s1)
                      | None \<Rightarrow>
                          (case get_playlist_tracks (sp_playlist_tracks E playlist_id) of
                             None \<Rightarrow> None
                           | Some (Inl e) \<Rightarrow> Some (on_exception e s1)
                           | Some (Inr tracks) \<Rightarrow>
                               (let s2 = set_progress (\<lambda>p. p\<lparr>p_total := length tracks\<rparr>) s1;
                                    s3 = set_progress (\<lambda>p. p\<lparr>p_status := ''downloading''\<rparr>) s2
                                in case track_loop E stops download_folder 0 tracks 0 s3 of
                                     (Inl e, s) \<Rightarrow> Some (on_exception e s)
                                   | (Inr Cancelled, s) \<Rightarrow> Some s
                                   | (Inr (Finished n), s) \<Rightarrow>
                                       Some ((set_progress (\<lambda>p. p\<lparr>p_successful := Some n\<rparr>)
                                                (set_progress (\<lambda>p. p\<lparr>p_status := ''completed''\<rparr>) s))
                                             \<lparr>is_downloading := False\<rparr>))))))"

text \<open>The statuses a poller sees during a run, consecutive repetitions merged.\<close>

definition status_trace :: "progress list \<Rightarrow> string list" where
  "status_trace ps = remdups_adj (map p_status ps)"

section \<open>Names for what the worker computes\<close>

text \<open>
  The values \<open>download_track\<close> computes on its way, named for the statements below:
  the target path, the output template handed to the downloader, the URL of the search
  and the URL of a candidate video.
\<close>

definition final_file :: "string \<Rightarrow> string \<Rightarrow> string \<Rightarrow> string" where
  "final_file download_folder artist_name track_name =
     path_join download_folder
       (sanitize_filename (artist_name @ '' - '' @ track_name) @ ''.mp3'')"

definition outtmpl :: "string \<Rightarrow> string \<Rightarrow> string \<Rightarrow> string" where
  "outtmpl download_folder artist_name track_name =
     path_join download_folder
       (sanitize_filename (artist_name @ '' - '' @ track_name) @ ''.%(ext)s'')"

definition search_url :: "env \<Rightarrow> string \<Rightarrow> string \<Rightarrow> string" where
  "search_url E artist_name track_name =
     ''https://www.youtube.com/results?search_query=''
       @ quote E (track_name @ '' '' @ artist_name @ '' official'')"

definition video_url :: "string \<Rightarrow> string" where
  "video_url video_id = ''https://www.youtube.com/watch?v='' @ video_id"

text \<open>The download of a candidate raises (and the next candidate is tried).\<close>

definition download_raises :: "env \<Rightarrow> string \<Rightarrow> string \<Rightarrow> bool" where
  "download_raises E tmpl video_id =
     (case ydl_download E (video_url video_id) tmpl of
        DlRaises e \<Rightarrow> True
      | DlReturns written \<Rightarrow> False)"





text \<open>
  The state in which \<open>download_worker\<close> enters its loop over \<open>n\<close> tracks: the flag set,
  the progress record reset, \<open>total\<close> and the status \<open>downloading\<close> written.
\<close>

definition loop_entry :: "nat \<Rightarrow> state \<Rightarrow> state" where
  "loop_entry n s0 =
     set_progress (\<lambda>p. p\<lparr>p_status := ''downloading''\<rparr>)
       (set_progress (\<lambda>p. p\<lparr>p_total := n\<rparr>)
          (put_progress starting_progress (s0\<lparr>is_downloading := True\<rparr>)))"

text \<open>
  The values of \<open>download_progress\<close> written between the states \<open>s\<close> and \<open>s'\<close>: what a
  poller sees of a run that starts in \<open>s\<close> and ends in \<open>s'\<close>.
\<close>

definition written :: "state \<Rightarrow> state \<Rightarrow> progress list" where
  "written s s' = drop (length (snapshots s)) (snapshots s')"

section \<open>Example inputs\<close>

text \<open>
  Concrete playlists and environments on which the statements below are evaluated.
  In \<open>env_rock\<close> every search finds four videos, the first of which cannot be
  downloaded.
\<close>

definition tnt :: track where
  "tnt = \<lparr>tr_type = ''track'', tr_artists = [''ACDC''], tr_name = ''TNT''\<rparr>"

definition env_rock :: env where
  "env_rock =
     \<lparr>sp_playlist = (\<lambda>pid. Inr ''Rock Mix''),
      sp_playlist_tracks = (\<lambda>pid. paged [Some tnt]),
      makedirs = (\<lambda>path. None),
      quote = (\<lambda>q. q),
      search_video_ids =
        (\<lambda>url. Inr [''aaaaaaaaaaa'', ''bbbbbbbbbbb'', ''ccccccccccc'', ''ddddddddddd'']),
      ydl_download =
        (\<lambda>u t. if u = video_url ''aaaaaaaaaaa''
               then DlRaises (ExternalError ''Video unavailable'')
               else DlReturns True)\<rparr>"



text \<open>
  A playlist whose first slot has no track (\<open>track_info['track']\<close> is \<open>None\<close>), followed
  by a playable one.
\<close>

definition env_gap :: env where
  "env_gap = env_rock\<lparr>sp_playlist_tracks := (\<lambda>pid. paged [None, Some tnt])\<rparr>"



text \<open>
  The environment of \<open>env_rock\<close> with a downloader that fails on every video without
  raising: with \<open>'ignoreerrors': True\<close> the library reports the error and returns, and
  no file is written.
\<close>

definition env_silent :: env where
  "env_silent = env_rock\<lparr>ydl_download := (\<lambda>u t. DlReturns False)\<rparr>"

section \<open>Properties of the sanitizer\<close>

lemma range_lower: "\<forall>n\<in>set [97..<123]. (char_of (n::nat) :: char) \<in> set valid_chars"
  by code_simp

lemma range_upper: "\<forall>n\<in>set [65..<91]. (char_of (n::nat) :: char) \<in> set valid_chars"
  by code_simp

lemma range_digit: "\<forall>n\<in>set [48..<58]. (char_of (n::nat) :: char) \<in> set valid_chars"
  by code_simp

lemma valid_chars_all_allowed: "\<forall>c\<in>set valid_chars. allowed_char c"
  by code_simp
lemma punct_valid: "c \<in> set ''-_.() '' \<Longrightarrow> c \<in> set valid_chars"
  unfolding valid_chars_def by (simp only: set_append UnI1)

lemma valid_chars_complete: 
  assumes a: "allowed_char c" shows "c \<in> set valid_chars"
proof -
  have c: "char_of (of_char c :: nat) = c" by simp
  from a consider "97 \<le> (of_char c :: nat) \<and> (of_char c :: nat) < 123" 
    | "65 \<le> (of_char c :: nat) \<and> (of_char c :: nat) < 91"
    | "48 \<le> (of_char c :: nat) \<and> (of_char c :: nat) < 58" | "c \<in> set ''-_.() ''"
    unfolding allowed_char_def is_ascii_letter_def is_ascii_digit_def by fastforce
  then show "c \<in> set valid_chars"
  proof cases
    case 1 
    then have "(of_char c :: nat) \<in> set [97..<123]" by (simp only: set_upt atLeastLessThan_iff)
    from bspec [OF range_lower this] show ?thesis by (simp only: c)
  next
    case 2 
    then have "(of_char c :: nat) \<in> set [65..<91]" by (simp only: set_upt atLeastLessThan_iff)
    from bspec [OF range_upper this] show ?thesis by (simp only: c)
  next
    case 3 
    then have "(of_char c :: nat) \<in> set [48..<58]" by (simp only: set_upt atLeastLessThan_iff)
    from bspec [OF range_digit this] show ?thesis by (simp only: c)
  next
    case 4 then show ?thesis by (rule punct_valid)
  qed
qed

lemma valid_chars_allowed: "c \<in> set valid_chars \<longleftrightarrow> allowed_char c"
  using valid_chars_all_allowed valid_chars_complete by blast


text \<open>
  C8: for every input string, \<open>sanitize_filename\<close> returns exactly the characters of the
  input that are ASCII letters, digits or one of \<open>-_.() \<close>, in their original order, the
  others being dropped. So every character of the output is allowed, an input made of
  disallowed characters only gives the empty string, and sanitizing twice is sanitizing
  once. The function is total: it is a \<open>filter\<close>.
\<close>

theorem sanitize_filename_spec:
  "sanitize_filename x = filter allowed_char x
   \<and> (\<forall>c\<in>set (sanitize_filename x). allowed_char c)
   \<and> ((\<forall>c\<in>set x. \<not> allowed_char c) \<longrightarrow> sanitize_filename x = [])
   \<and> sanitize_filename (sanitize_filename x) = sanitize_filename x"
proof -
  have eq: "sanitize_filename y = filter allowed_char y" for y
    by (simp add: sanitize_filename_def valid_chars_allowed)
  show ?thesis
    unfolding eq by (simp add: filter_empty_conv)
qed

theorem sanitize_filename_spec_witness:
  "list_all (\<lambda>c. \<not> allowed_char c) ''/:*?<>|''
   \<and> sanitize_filename ''/:*?<>|'' = []
   \<and> sanitize_filename ''AC/DC: Back*In?Black (Live)'' = ''ACDC BackInBlack (Live)''
   \<and> list_all allowed_char (sanitize_filename ''AC/DC: Back*In?Black (Live)'')"
proof -
  have inv: "\<forall>c\<in>set ''/:*?<>|''. \<not> allowed_char c"
    by code_simp
  note bad = sanitize_filename_spec [of "''/:*?<>|''"]
  note good = sanitize_filename_spec [of "''AC/DC: Back*In?Black (Live)''"]
  have empty: "sanitize_filename ''/:*?<>|'' = []"
    by (rule mp [OF bad [THEN conjunct2, THEN conjunct2, THEN conjunct1] inv])
  have val: "sanitize_filename ''AC/DC: Back*In?Black (Live)'' = ''ACDC BackInBlack (Live)''"
    by code_simp
  have inv': "list_all (\<lambda>c. \<not> allowed_char c) ''/:*?<>|''"
    using inv by (simp only: list_all_iff)
  have out: "list_all allowed_char (sanitize_filename ''AC/DC: Back*In?Black (Live)'')"
    using good [THEN conjunct2, THEN conjunct1] by (simp only: list_all_iff)
  from inv' empty val out show ?thesis by (intro conjI)
qed


section \<open>Properties of the URL parser\<close>


lemma takeWhile_alnum_Nil: "takeWhile alnum r = [] \<longleftrightarrow> r = [] \<or> \<not> alnum (hd r)"
  by (cases r) auto

lemma head_match_split:
  assumes "take (length lit) s = lit"
  shows "s = lit @ takeWhile alnum (drop (length lit) s) @ dropWhile alnum (drop (length lit) s)"
proof -
  have "s = take (length lit) s @ drop (length lit) s" by simp
  with assms show ?thesis by (metis takeWhile_dropWhile_id)
qed

lemma dropWhile_alnum_hd: "dropWhile alnum r = [] \<or> \<not> alnum (hd (dropWhile alnum r))"
  by (metis hd_dropWhile)

lemma re_search_group_Some:
  "re_search_group lit s = Some g \<Longrightarrow> leftmost_capture lit s g"
proof (induction s)
  case Nil
  then show ?case by simp
next
  case (Cons c cs)
  let ?s = "c # cs"
  let ?r = "drop (length lit) ?s"
  show ?case
  proof (cases "take (length lit) ?s = lit \<and> takeWhile alnum ?r \<noteq> []")
    case True
    with Cons.prems have g: "g = takeWhile alnum ?r" by simp
    have split: "?s = [] @ lit @ g @ dropWhile alnum ?r"
      using head_match_split [of lit ?s] True g by simp
    have "list_all alnum g" using g by (simp add: list_all_iff) (metis set_takeWhileD)
    moreover have "g \<noteq> []" using True g by simp
    moreover note dropWhile_alnum_hd [of ?r]
    ultimately show ?thesis
      unfolding leftmost_capture_def using split
      by (intro exI [of _ "[]"] exI [of _ "dropWhile alnum ?r"]) simp
  next
    case False
    with Cons.prems have "re_search_group lit cs = Some g" by (simp split: if_splits)
    from Cons.IH [OF this] obtain pre post where
      cs: "cs = pre @ lit @ g @ post" and g: "g \<noteq> []" "list_all alnum g"
      and post: "post = [] \<or> \<not> alnum (hd post)"
      and left: "\<forall>pre' r. length pre' < length pre \<longrightarrow> cs = pre' @ lit @ r
              \<longrightarrow> r = [] \<or> \<not> alnum (hd r)"
      unfolding leftmost_capture_def by blast
    have left': "r = [] \<or> \<not> alnum (hd r)"
      if len: "length pre' < length (c # pre)" and eq: "?s = pre' @ lit @ r" for pre' r
    proof (cases pre')
      case Nil
      with eq have "take (length lit) ?s = lit" "drop (length lit) ?s = r" by simp_all
      with False have "takeWhile alnum r = []" by simp
      then show ?thesis by (simp add: takeWhile_alnum_Nil)
    next
      case (Cons d ds)
      with eq len have "cs = ds @ lit @ r" "length ds < length pre" by simp_all
      with left show ?thesis by blast
    qed
    show ?thesis
      unfolding leftmost_capture_def
      using cs g post left'
      by (intro exI [of _ "c # pre"] exI [of _ post]) simp
  qed
qed

lemma re_search_group_None:
  "re_search_group lit s = None \<Longrightarrow> \<not> occurs lit s"
proof (induction s)
  case Nil
  then show ?case by (simp add: occurs_def)
next
  case (Cons c cs)
  let ?s = "c # cs"
  from Cons.prems have nohead:
    "\<not> (take (length lit) ?s = lit \<and> takeWhile alnum (drop (length lit) ?s) \<noteq> [])"
    and rest: "re_search_group lit cs = None"
    by (simp_all split: if_splits)
  from Cons.IH [OF rest] have notcs: "\<not> occurs lit cs" .
  show ?case
  proof
    assume "occurs lit ?s"
    then obtain pre g post where
      eq: "?s = pre @ lit @ g @ post" and g: "g \<noteq> []" "list_all alnum g"
      unfolding occurs_def by blast
    show False
    proof (cases pre)
      case Nil
      with eq have "take (length lit) ?s = lit" "drop (length lit) ?s = g @ post" by simp_all
      moreover from g have "takeWhile alnum (g @ post) \<noteq> []" by (cases g) auto
      ultimately show False using nohead by simp
    next
      case (Cons d ds)
      with eq have "cs = ds @ lit @ g @ post" by simp
      with g have "occurs lit cs" unfolding occurs_def by blast
      with notcs show False ..
    qed
  qed
qed

lemma leftmost_capture_occurs: "leftmost_capture lit s g \<Longrightarrow> occurs lit s"
  unfolding leftmost_capture_def occurs_def by blast

lemma re_search_group_occurs:
  "occurs lit s \<Longrightarrow> \<exists>g. re_search_group lit s = Some g \<and> leftmost_capture lit s g"
  by (metis re_search_group_None re_search_group_Some not_Some_eq)

lemma re_search_group_not_occurs: "\<not> occurs lit s \<Longrightarrow> re_search_group lit s = None"
  by (metis re_search_group_Some leftmost_capture_occurs not_Some_eq)

lemma leftmost_capture_nonempty: "leftmost_capture lit s g \<Longrightarrow> g \<noteq> []"
  unfolding leftmost_capture_def by blast


text \<open>
  C9: \<open>extract_playlist_id\<close> tries \<open>playlist/\<close> followed by a maximal run of
  alphanumeric characters, then \<open>playlist:\<close> followed by the same; it returns the
  capture of the first pattern that matches anywhere in the input (at its leftmost
  match), and none if neither matches. It never returns an empty identifier, maps the
  open.spotify.com URL of the specification to its identifier, and \<open>not a url\<close> to none.
\<close>

theorem extract_playlist_id_spec:
  "(occurs ''playlist/'' url \<longrightarrow>
      (\<exists>g. extract_playlist_id url = Some g \<and> leftmost_capture ''playlist/'' url g))
   \<and> (\<not> occurs ''playlist/'' url \<and> occurs ''playlist:'' url \<longrightarrow>
      (\<exists>g. extract_playlist_id url = Some g \<and> leftmost_capture ''playlist:'' url g))
   \<and> (\<not> occurs ''playlist/'' url \<and> \<not> occurs ''playlist:'' url \<longrightarrow>
      extract_playlist_id url = None)
   \<and> extract_playlist_id url \<noteq> Some []
   \<and> extract_playlist_id ''https://open.spotify.com/playlist/37i9dQZF1DXcBWIGoYBM5M''
        = Some ''37i9dQZF1DXcBWIGoYBM5M''
   \<and> extract_playlist_id ''not a url'' = None"
proof (intro conjI impI)
  assume "occurs ''playlist/'' url"
  from re_search_group_occurs [OF this]
  show "\<exists>g. extract_playlist_id url = Some g \<and> leftmost_capture ''playlist/'' url g"
    by (auto simp: extract_playlist_id_def)
next
  assume a: "\<not> occurs ''playlist/'' url \<and> occurs ''playlist:'' url"
  then have "re_search_group ''playlist/'' url = None" by (simp add: re_search_group_not_occurs)
  moreover from a re_search_group_occurs [of "''playlist:''" url]
  obtain g where "re_search_group ''playlist:'' url = Some g" "leftmost_capture ''playlist:'' url g"
    by blast
  ultimately show "\<exists>g. extract_playlist_id url = Some g \<and> leftmost_capture ''playlist:'' url g"
    by (simp add: extract_playlist_id_def)
next
  assume "\<not> occurs ''playlist/'' url \<and> \<not> occurs ''playlist:'' url"
  then show "extract_playlist_id url = None"
    by (simp add: extract_playlist_id_def re_search_group_not_occurs)
next
  show "extract_playlist_id url \<noteq> Some []"
    by (auto simp: extract_playlist_id_def split: option.splits
        dest!: re_search_group_Some leftmost_capture_nonempty)
next
  show "extract_playlist_id ''https://open.spotify.com/playlist/37i9dQZF1DXcBWIGoYBM5M''
        = Some ''37i9dQZF1DXcBWIGoYBM5M''"
    by code_simp
next
  show "extract_playlist_id ''not a url'' = None"
    by code_simp
qed


theorem extract_playlist_id_spec_witness:
  "occurs ''playlist/'' ''open.spotify.com/playlist/37i9dQ?si=1''
   \<and> (\<exists>g. extract_playlist_id ''open.spotify.com/playlist/37i9dQ?si=1'' = Some g
        \<and> leftmost_capture ''playlist/'' ''open.spotify.com/playlist/37i9dQ?si=1'' g)
   \<and> \<not> occurs ''playlist/'' ''spotify:playlist:abc9''
   \<and> occurs ''playlist:'' ''spotify:playlist:abc9''
   \<and> (\<exists>g. extract_playlist_id ''spotify:playlist:abc9'' = Some g
        \<and> leftmost_capture ''playlist:'' ''spotify:playlist:abc9'' g)
   \<and> \<not> occurs ''playlist/'' ''not a url'' \<and> \<not> occurs ''playlist:'' ''not a url''
   \<and> extract_playlist_id ''not a url'' = None"
proof -
  have a: "occurs ''playlist/'' ''open.spotify.com/playlist/37i9dQ?si=1''"
    unfolding occurs_def
  proof (intro exI conjI)
    show "''open.spotify.com/playlist/37i9dQ?si=1''
            = ''open.spotify.com/'' @ ''playlist/'' @ ''37i9dQ'' @ ''?si=1''" by simp
    show "''37i9dQ'' \<noteq> []" by simp
    show "list_all alnum ''37i9dQ''" by code_simp
  qed
  have b1: "\<not> occurs ''playlist/'' ''spotify:playlist:abc9''"
    by (rule re_search_group_None) code_simp
  have b2: "occurs ''playlist:'' ''spotify:playlist:abc9''"
    unfolding occurs_def
  proof (intro exI conjI)
    show "''spotify:playlist:abc9'' = ''spotify:'' @ ''playlist:'' @ ''abc9'' @ []" by simp
    show "''abc9'' \<noteq> []" by simp
    show "list_all alnum ''abc9''" by code_simp
  qed
  have c1: "\<not> occurs ''playlist/'' ''not a url''"
    by (rule re_search_group_None) code_simp
  have c2: "\<not> occurs ''playlist:'' ''not a url''"
    by (rule re_search_group_None) code_simp
  note A = extract_playlist_id_spec [of "''open.spotify.com/playlist/37i9dQ?si=1''"]
  note B = extract_playlist_id_spec [of "''spotify:playlist:abc9''"]
  note C = extract_playlist_id_spec [of "''not a url''"]
  have ra: "\<exists>g. extract_playlist_id ''open.spotify.com/playlist/37i9dQ?si=1'' = Some g
        \<and> leftmost_capture ''playlist/'' ''open.spotify.com/playlist/37i9dQ?si=1'' g"
    by (rule mp [OF A [THEN conjunct1] a])
  have rb: "\<exists>g. extract_playlist_id ''spotify:playlist:abc9'' = Some g
        \<and> leftmost_capture ''playlist:'' ''spotify:playlist:abc9'' g"
    by (rule mp [OF B [THEN conjunct2, THEN conjunct1] conjI [OF b1 b2]])
  have rc: "extract_playlist_id ''not a url'' = None"
    by (rule mp [OF C [THEN conjunct2, THEN conjunct2, THEN conjunct1] conjI [OF c1 c2]])
  from a ra b1 b2 rb c1 c2 rc show ?thesis by (intro conjI)
qed

section \<open>Frame properties of the worker\<close>

lemma log_call_simps [simp]:
  "is_downloading (log_call c s) = is_downloading s"
  "download_progress (log_call c s) = download_progress s"
  "download_path (log_call c s) = download_path s"
  "files (log_call c s) = files s"
  "snapshots (log_call c s) = snapshots s"
  "threads (log_call c s) = threads s"
  "calls (log_call c s) = calls s @ [c]"
  by (simp_all add: log_call_def)

lemma put_progress_simps [simp]:
  "is_downloading (put_progress p s) = is_downloading s"
  "download_progress (put_progress p s) = p"
  "download_path (put_progress p s) = download_path s"
  "files (put_progress p s) = files s"
  "snapshots (put_progress p s) = snapshots s @ [p]"
  "threads (put_progress p s) = threads s"
  "calls (put_progress p s) = calls s"
  by (simp_all add: put_progress_def)

lemma set_progress_simps [simp]:
  "is_downloading (set_progress f s) = is_downloading s"
  "download_progress (set_progress f s) = f (download_progress s)"
  "download_path (set_progress f s) = download_path s"
  "files (set_progress f s) = files s"
  "snapshots (set_progress f s) = snapshots s @ [f (download_progress s)]"
  "threads (set_progress f s) = threads s"
  "calls (set_progress f s) = calls s"
  by (simp_all add: set_progress_def)

lemma try_candidates_frame:
  "try_candidates E folder name ids s = (ok, s') \<Longrightarrow>
     is_downloading s' = is_downloading s \<and> download_progress s' = download_progress s
     \<and> download_path s' = download_path s \<and> snapshots s' = snapshots s
     \<and> threads s' = threads s \<and> files s \<subseteq> files s'"
proof (induction ids arbitrary: s)
  case Nil
  then show ?case by simp
next
  case (Cons v rest)
  show ?case
  proof (cases "ydl_download E (''https://www.youtube.com/watch?v='' @ v)
                  (path_join folder (name @ ''.%(ext)s''))")
    case (DlRaises e)
    with Cons.prems have "try_candidates E folder name rest
        (log_call (Download (''https://www.youtube.com/watch?v='' @ v)
            (path_join folder (name @ ''.%(ext)s''))) s) = (ok, s')"
      by (simp add: Let_def)
    from Cons.IH [OF this] show ?thesis by simp
  next
    case (DlReturns written)
    with Cons.prems show ?thesis by (auto simp: Let_def split: if_splits)
  qed
qed

lemma download_track_body_frame:
  "download_track_body E ti folder s = (r, s') \<Longrightarrow>
     is_downloading s' = is_downloading s \<and> download_progress s' = download_progress s
     \<and> download_path s' = download_path s \<and> snapshots s' = snapshots s
     \<and> threads s' = threads s \<and> files s \<subseteq> files s'"
  unfolding download_track_body_def
  by (auto simp: Let_def split: option.splits if_splits list.splits sum.splits prod.splits
      dest!: try_candidates_frame)

lemma download_track_frame:
  "download_track E ti folder s = (ok, s') \<Longrightarrow>
     is_downloading s' = is_downloading s \<and> download_progress s' = download_progress s
     \<and> download_path s' = download_path s \<and> snapshots s' = snapshots s
     \<and> threads s' = threads s \<and> files s \<subseteq> files s'"
  unfolding download_track_def
  by (auto split: prod.splits sum.splits dest!: download_track_body_frame)

section \<open>Pagination\<close>

lemma fetch_pages_paged:
  "(length cat - offset) div limit = k \<Longrightarrow>
   fetch_pages (paged cat) offset tracks pages
     = Some (Inr (tracks @ drop offset cat),
             pages @ map (\<lambda>i. (offset + i * limit, limit)) [0..<k]
                   @ [(offset + k * limit, (length cat - offset) mod limit)])"
proof (induction k arbitrary: offset tracks pages)
  case 0
  then have short: "length cat - offset < limit" by (simp add: limit_def)
  then have items: "take limit (drop offset cat) = drop offset cat" by simp
  show ?case
    by (subst fetch_pages.simps) (use short items in \<open>simp add: paged_def\<close>)
next
  case (Suc k)
  then have full: "limit \<le> length cat - offset"
    by (metis div_less not_less Zero_not_Suc)
  then have len: "length (take limit (drop offset cat)) = limit" by simp
  have next_k: "(length cat - (offset + limit)) div limit = k"
    using Suc.prems full by (simp add: limit_def) 
  have mod_eq: "(length cat - (offset + limit)) mod limit = (length cat - offset) mod limit"
    using full by (metis diff_diff_left le_mod_geq)
  have app: "take limit (drop offset cat) @ drop (offset + limit) cat = drop offset cat"
    by (metis add.commute append_take_drop_id drop_drop)
  have "fetch_pages (paged cat) offset tracks pages
        = fetch_pages (paged cat) (offset + limit) (tracks @ take limit (drop offset cat))
            (pages @ [(offset, limit)])"
    by (subst fetch_pages.simps) (use full in \<open>simp add: paged_def min_absorb2\<close>)
  also have "\<dots> = Some (Inr ((tracks @ take limit (drop offset cat)) @ drop (offset + limit) cat),
             (pages @ [(offset, limit)]) @ map (\<lambda>i. (offset + limit + i * limit, limit)) [0..<k]
                   @ [(offset + limit + k * limit, (length cat - (offset + limit)) mod limit)])"
    by (rule Suc.IH [OF next_k])
  also have "\<dots> = Some (Inr (tracks @ drop offset cat),
             pages @ map (\<lambda>i. (offset + i * limit, limit)) [0..<Suc k]
                   @ [(offset + Suc k * limit, (length cat - offset) mod limit)])"
    by (simp add: app mod_eq map_upt_Suc add.assoc del: upt_Suc)
  finally show ?case .
qed

lemma get_playlist_tracks_paged_eq: "get_playlist_tracks (paged cat) = Some (Inr cat)"
  unfolding get_playlist_tracks_def
  by (subst fetch_pages_paged [OF refl]) simp

text \<open>
  C4: against a catalog that serves the playlist in pages, \<open>get_playlist_tracks\<close> asks for
  pages of 100 items from offset 0, moves the offset on by 100 after each full page and
  stops at the first page with fewer than 100 items; it returns the pages concatenated,
  which is the playlist in the catalog's order. The requests are the full pages at the
  offsets \<open>0, 100, ...\<close> followed by one short page (possibly empty). A playlist of 250
  tracks takes exactly the three pages of sizes 100, 100, 50 and the result has 250
  items. In particular the loop returns.
\<close>

theorem get_playlist_tracks_pagination:
  "get_playlist_tracks (paged cat) = Some (Inr cat)
   \<and> fetch_pages (paged cat) 0 [] []
       = Some (Inr cat,
               map (\<lambda>i. (i * limit, limit)) [0..<length cat div limit]
                 @ [(length cat div limit * limit, length cat mod limit)])
   \<and> (length cat = 250 \<longrightarrow>
        fetch_pages (paged cat) 0 [] [] = Some (Inr cat, [(0, 100), (100, 100), (200, 50)])
        \<and> (\<exists>tracks. get_playlist_tracks (paged cat) = Some (Inr tracks) \<and> length tracks = 250))"
proof (intro conjI impI)
  show "get_playlist_tracks (paged cat) = Some (Inr cat)"
    by (rule get_playlist_tracks_paged_eq)
  show general: "fetch_pages (paged cat) 0 [] []
       = Some (Inr cat,
               map (\<lambda>i. (i * limit, limit)) [0..<length cat div limit]
                 @ [(length cat div limit * limit, length cat mod limit)])"
    by (subst fetch_pages_paged [OF refl]) simp
  assume n: "length cat = 250"
  have "[0..<250 div limit] = [0, 1]" by (simp add: limit_def upt_rec)
  then show "fetch_pages (paged cat) 0 [] [] = Some (Inr cat, [(0, 100), (100, 100), (200, 50)])"
    unfolding general by (simp add: n limit_def)
  show "\<exists>tracks. get_playlist_tracks (paged cat) = Some (Inr tracks) \<and> length tracks = 250"
    using n by (simp add: get_playlist_tracks_paged_eq)
qed

theorem get_playlist_tracks_pagination_witness:
  "length [0..<250] = 250
   \<and> fetch_pages (paged [0..<250]) 0 [] []
        = Some (Inr [0..<250], [(0, 100), (100, 100), (200, 50)])
   \<and> get_playlist_tracks (paged [0..<250]) = Some (Inr [0..<250])"
proof -
  have n: "length [0..<250] = 250" by simp
  note t = get_playlist_tracks_pagination [of "[0..<250]"]
  from n mp [OF t [THEN conjunct2, THEN conjunct2] n, THEN conjunct1] t [THEN conjunct1]
  show ?thesis by (intro conjI)
qed

section \<open>Start and stop\<close>

text \<open>
  C10: \<open>stop_download\<close> always returns the success result, whether a run is active or
  not, and its only effect is to clear \<open>is_downloading\<close>: the progress record (all its
  fields), the download path, the files and the started threads are what they were. Called
  when no run is active (the flag already clear) it changes nothing.
\<close>

theorem stop_download_frame:
  "fst (stop_download s) = Success ''Download stopped''
   \<and> snd (stop_download s) = s\<lparr>is_downloading := False\<rparr>
   \<and> \<not> is_downloading (snd (stop_download s))
   \<and> download_progress (snd (stop_download s)) = download_progress s
   \<and> download_path (snd (stop_download s)) = download_path s
   \<and> files (snd (stop_download s)) = files s
   \<and> threads (snd (stop_download s)) = threads s
   \<and> (\<not> is_downloading s \<longrightarrow> snd (stop_download s) = s)"
  by (simp add: stop_download_def)

theorem stop_download_frame_witness:
  "\<not> is_downloading (init ''/home/u'' {})
   \<and> stop_download (init ''/home/u'' {}) = (Success ''Download stopped'', init ''/home/u'' {})"
proof -
  have idle: "\<not> is_downloading (init ''/home/u'' {})"
    by (simp add: init_def)
  note t = stop_download_frame [of "init ''/home/u'' {}"]
  have "snd (stop_download (init ''/home/u'' {})) = init ''/home/u'' {}"
    using t idle by blast
  moreover have "fst (stop_download (init ''/home/u'' {})) = Success ''Download stopped''"
    using t by blast
  ultimately have "stop_download (init ''/home/u'' {}) = (Success ''Download stopped'', init ''/home/u'' {})"
    by (simp add: prod_eq_iff)
  with idle show ?thesis by (intro conjI)
qed

text \<open>
  The guard of \<open>start_download\<close>: with the flag set the state is returned as it was, with
  the error result; with the flag clear one thread is started and nothing else changes.
\<close>

lemma start_download_guard:
  "(is_downloading s \<longrightarrow>
      start_download playlist_url s = (Failure ''Download already in progress'', s))
   \<and> (\<not> is_downloading s \<longrightarrow>
      start_download playlist_url s
        = (Success ''Download started'', s\<lparr>threads := threads s @ [playlist_url]\<rparr>)
      \<and> length (threads (snd (start_download playlist_url s))) = length (threads s) + 1
      \<and> download_progress (snd (start_download playlist_url s)) = download_progress s
      \<and> snapshots (snd (start_download playlist_url s)) = snapshots s
      \<and> calls (snd (start_download playlist_url s)) = calls s)"
  by (simp add: start_download_def)

section \<open>The worker\<close>

lemma try_candidates_ok:
  "fst (try_candidates E folder name ids s)
     \<longleftrightarrow> \<not> list_all (download_raises E (path_join folder (name @ ''.%(ext)s''))) ids"
  by (induction ids arbitrary: s)
     (auto simp: Let_def download_raises_def video_url_def split: dl_result.splits)

lemma try_candidates_calls:
  "calls (snd (try_candidates E folder name ids s))
     = calls s @ map (\<lambda>v. Download (video_url v) (path_join folder (name @ ''.%(ext)s'')))
         (take (Suc (length (takeWhile
            (download_raises E (path_join folder (name @ ''.%(ext)s''))) ids))) ids)"
  by (induction ids arbitrary: s)
     (auto simp: Let_def download_raises_def video_url_def split: dl_result.splits)

lemma download_track_unplayable:
  "download_track E None folder s = (False, s)"
  "tr_type track \<noteq> ''track'' \<Longrightarrow> download_track E (Some track) folder s = (False, s)"
  "tr_artists track = [] \<Longrightarrow> download_track E (Some track) folder s = (False, s)"
  by (simp_all add: download_track_def download_track_body_def)


lemma download_track_search:
  assumes "tr_type track = ''track''" "tr_artists track = artist_name # others"
    "final_file folder artist_name (tr_name track) \<notin> files s"
  shows "download_track E (Some track) folder s =
     (case search_video_ids E (search_url E artist_name (tr_name track)) of
        Inl e \<Rightarrow> (False, log_call (Search (search_url E artist_name (tr_name track))) s)
      | Inr video_ids \<Rightarrow>
          if video_ids = [] then (False, log_call (Search (search_url E artist_name (tr_name track))) s)
          else try_candidates E folder (sanitize_filename (artist_name @ '' - '' @ tr_name track))
                 (take 3 video_ids) (log_call (Search (search_url E artist_name (tr_name track))) s))"
  using assms
  by (simp add: download_track_def download_track_body_def final_file_def search_url_def Let_def
      split: sum.splits prod.splits)

text \<open>
  What the worker does with the candidates. \<open>download_track\<close> is a total function into
  the booleans, and an exception of its body is turned into \<open>False\<close> by the outer
  handler (a slot with no track, a non-track item and a track without artists all give
  \<open>False\<close> with no external call). For a playable track whose file is not there yet: it
  returns \<open>False\<close> when the search raises or finds no video identifier; otherwise it
  tries the first three identifiers at most, in the order of the search, stops at the
  first download that does not raise and gives \<open>True\<close>, and gives \<open>False\<close> when all of
  them raise.
\<close>

lemma download_track_attempts:
  assumes "tr_type track = ''track''" and "tr_artists track = artist_name # others"
    and "final_file folder artist_name (tr_name track) \<notin> files s"
    and "url = search_url E artist_name (tr_name track)"
    and "tmpl = outtmpl folder artist_name (tr_name track)"
  shows
    "(\<forall>e. search_video_ids E url = Inl e \<longrightarrow>
        download_track E (Some track) folder s = (False, log_call (Search url) s))
     \<and> (search_video_ids E url = Inr [] \<longrightarrow>
        download_track E (Some track) folder s = (False, log_call (Search url) s))
     \<and> (\<forall>video_ids. search_video_ids E url = Inr video_ids \<and> video_ids \<noteq> [] \<longrightarrow>
          (fst (download_track E (Some track) folder s)
             \<longleftrightarrow> \<not> list_all (download_raises E tmpl) (take 3 video_ids))
          \<and> calls (snd (download_track E (Some track) folder s))
              = calls s @ Search url #
                  map (\<lambda>v. Download (video_url v) tmpl)
                    (take (Suc (length (takeWhile (download_raises E tmpl) (take 3 video_ids))))
                       (take 3 video_ids)))
     \<and> download_track E None folder s = (False, s)
     \<and> download_track E (Some (track\<lparr>tr_type := ''episode''\<rparr>)) folder s = (False, s)
     \<and> download_track E (Some (track\<lparr>tr_artists := []\<rparr>)) folder s = (False, s)"
proof -
  note eq = download_track_search [OF assms(1,2,3), of E, folded assms(4)]
  have tmpl: "tmpl = path_join folder
      (sanitize_filename (artist_name @ '' - '' @ tr_name track) @ ''.%(ext)s'')"
    by (simp add: assms(5) outtmpl_def)
  show ?thesis
  proof (intro conjI allI impI)
    fix e assume "search_video_ids E url = Inl e"
    then show "download_track E (Some track) folder s = (False, log_call (Search url) s)"
      by (simp add: eq)
  next
    assume "search_video_ids E url = Inr []"
    then show "download_track E (Some track) folder s = (False, log_call (Search url) s)"
      by (simp add: eq)
  next
    fix video_ids assume a: "search_video_ids E url = Inr video_ids \<and> video_ids \<noteq> []"
    then show "fst (download_track E (Some track) folder s)
             \<longleftrightarrow> \<not> list_all (download_raises E tmpl) (take 3 video_ids)"
      by (simp add: eq try_candidates_ok tmpl)
  next
    fix video_ids assume a: "search_video_ids E url = Inr video_ids \<and> video_ids \<noteq> []"
    then show "calls (snd (download_track E (Some track) folder s))
              = calls s @ Search url #
                  map (\<lambda>v. Download (video_url v) tmpl)
                    (take (Suc (length (takeWhile (download_raises E tmpl) (take 3 video_ids))))
                       (take 3 video_ids))"
      by (simp add: eq try_candidates_calls tmpl)
  next
    show "download_track E None folder s = (False, s)"
      by (rule download_track_unplayable)
    show "download_track E (Some (track\<lparr>tr_type := ''episode''\<rparr>)) folder s = (False, s)"
      by (rule download_track_unplayable) simp
    show "download_track E (Some (track\<lparr>tr_artists := []\<rparr>)) folder s = (False, s)"
      by (rule download_track_unplayable) simp
  qed
qed

text \<open>
  C6: the worker should return false if all three candidates fail, and true on the first
  candidate that downloads successfully. It does so only for failures that raise. The
  options passed to the downloader hold \<open>'ignoreerrors': True\<close>, and the result of
  \<open>ydl.download\<close> is not read: a download that fails without raising counts as a
  success. In \<open>env_silent\<close> every one of the four candidates fails this way; the worker
  returns \<open>True\<close> after the first attempt, the other candidates are never tried, and the
  target file does not exist afterwards.
\<close>

theorem failed_download_counts_as_success:
  "list_all (\<lambda>v. ydl_download env_silent (video_url v) (outtmpl ''/music'' ''ACDC'' ''TNT'')
                  = DlReturns False)
      [''aaaaaaaaaaa'', ''bbbbbbbbbbb'', ''ccccccccccc'', ''ddddddddddd'']
   \<and> fst (download_track env_silent (Some tnt) ''/music'' (init ''/home/u'' {}))
   \<and> calls (snd (download_track env_silent (Some tnt) ''/music'' (init ''/home/u'' {})))
       = [Search ''https://www.youtube.com/results?search_query=TNT ACDC official'',
          Download ''https://www.youtube.com/watch?v=aaaaaaaaaaa'' ''/music/ACDC - TNT.%(ext)s'']
   \<and> final_file ''/music'' ''ACDC'' ''TNT''
       \<notin> files (snd (download_track env_silent (Some tnt) ''/music'' (init ''/home/u'' {})))"
proof (intro conjI)
  show "list_all (\<lambda>v. ydl_download env_silent (video_url v) (outtmpl ''/music'' ''ACDC'' ''TNT'')
                  = DlReturns False)
      [''aaaaaaaaaaa'', ''bbbbbbbbbbb'', ''ccccccccccc'', ''ddddddddddd'']"
    by (simp add: env_silent_def)
  show "fst (download_track env_silent (Some tnt) ''/music'' (init ''/home/u'' {}))"
    by code_simp
  show "calls (snd (download_track env_silent (Some tnt) ''/music'' (init ''/home/u'' {})))
       = [Search ''https://www.youtube.com/results?search_query=TNT ACDC official'',
          Download ''https://www.youtube.com/watch?v=aaaaaaaaaaa'' ''/music/ACDC - TNT.%(ext)s'']"
    by code_simp
  show "final_file ''/music'' ''ACDC'' ''TNT''
       \<notin> files (snd (download_track env_silent (Some tnt) ''/music'' (init ''/home/u'' {})))"
    by code_simp
qed

section \<open>The loop over the tracks\<close>



lemma track_loop_step:
  assumes "\<not> stops i" and "is_downloading s" and "track_label ti = Inr label"
    and "download_track E ti folder
           (log_call (Worker i)
              (set_progress (\<lambda>p. p\<lparr>p_current_track := Some label\<rparr>)
                 (set_progress (\<lambda>p. p\<lparr>p_current := i + 1\<rparr>) s))) = (ok, s4)"
  shows "track_loop E stops folder i (ti # rest) n s
           = track_loop E stops folder (i + 1) rest (if ok then n + 1 else n) s4"
  using assms by (simp add: Let_def)

lemma track_loop_stop:
  assumes "stops i \<or> \<not> is_downloading s"
  shows "track_loop E stops folder i (ti # rest) n s
           = (Inr Cancelled,
              set_progress (\<lambda>p. p\<lparr>p_status := ''cancelled''\<rparr>) (s\<lparr>is_downloading := False\<rparr>))"
  using assms by (auto simp: Let_def stop_download_def set_progress_def put_progress_def)

lemma track_loop_label_error:
  assumes "\<not> stops i" and "is_downloading s" and "track_label ti = Inl e"
  shows "track_loop E stops folder i (ti # rest) n s
           = (Inl e, set_progress (\<lambda>p. p\<lparr>p_current := i + 1\<rparr>) s)"
  using assms by (simp add: Let_def)

declare track_loop.simps(2) [simp del]


section \<open>The background run\<close>

lemma download_worker_loop:
  assumes "extract_playlist_id url = Some pid" and "sp_playlist E pid = Inr name"
    and "makedirs E (path_join (download_path s0) (sanitize_filename name)) = None"
    and "get_playlist_tracks (sp_playlist_tracks E pid) = Some (Inr tracks)"
  shows "download_worker E stops url s0 =
     (case track_loop E stops (path_join (download_path s0) (sanitize_filename name)) 0 tracks 0
             (loop_entry (length tracks) s0) of
        (Inl e, s) \<Rightarrow> Some (on_exception e s)
      | (Inr Cancelled, s) \<Rightarrow> Some s
      | (Inr (Finished n), s) \<Rightarrow>
          Some ((set_progress (\<lambda>p. p\<lparr>p_successful := Some n\<rparr>)
                   (set_progress (\<lambda>p. p\<lparr>p_status := ''completed''\<rparr>) s))
                \<lparr>is_downloading := False\<rparr>))"
  using assms by (simp add: download_worker_def loop_entry_def Let_def)

lemma loop_entry_simps [simp]:
  "is_downloading (loop_entry n s0)"
  "download_progress (loop_entry n s0) = starting_progress\<lparr>p_total := n, p_status := ''downloading''\<rparr>"
  "download_path (loop_entry n s0) = download_path s0"
  "files (loop_entry n s0) = files s0"
  "calls (loop_entry n s0) = calls s0"
  "threads (loop_entry n s0) = threads s0"
  "snapshots (loop_entry n s0) = snapshots s0 @
      [starting_progress, starting_progress\<lparr>p_total := n\<rparr>,
       starting_progress\<lparr>p_total := n, p_status := ''downloading''\<rparr>]"
  by (simp_all add: loop_entry_def)



text \<open>
  C7: \<open>start_download\<close> should refuse exactly when a run is active, and otherwise start
  one background thread. The code decides by the flag \<open>is_downloading\<close>, which is not
  the same thing in two reachable states.

  A run on a URL that does not parse returns early (\<open>status = "error"\<close>, then \<open>return\<close>)
  without clearing the flag, which the other two ends of a run do clear. The run is
  over, its status is \<open>error\<close>, and the next \<open>start_download\<close> is refused with
  \<open>Download already in progress\<close>; no thread is started.

  And \<open>stop_download\<close> clears the flag while the background thread is still in its
  loop: the status is still \<open>downloading\<close>, and a \<open>start_download\<close> now succeeds and
  starts a second thread beside the first.
\<close>

theorem start_download_flag_is_not_run_activity:
  "map_option
      (\<lambda>s. (p_status (download_progress s), is_downloading s,
            fst (start_download ''playlist/abc'' s),
            threads (snd (start_download ''playlist/abc'' s))))
      (download_worker env_rock (\<lambda>i. False) ''not a url''
         (snd (start_download ''not a url'' (init ''/home/u'' {}))))
     = Some (''error'', True, Failure ''Download already in progress'', [''not a url''])
   \<and> p_status (download_progress
        (snd (stop_download
           (loop_entry 1 (snd (start_download ''playlist/abc'' (init ''/home/u'' {})))))))
       = ''downloading''
   \<and> start_download ''playlist/abc''
        (snd (stop_download
           (loop_entry 1 (snd (start_download ''playlist/abc'' (init ''/home/u'' {}))))))
       = (Success ''Download started'',
          (snd (stop_download
             (loop_entry 1 (snd (start_download ''playlist/abc'' (init ''/home/u'' {}))))))
          \<lparr>threads := [''playlist/abc'', ''playlist/abc'']\<rparr>)"
proof (intro conjI)
  show "map_option
      (\<lambda>s. (p_status (download_progress s), is_downloading s,
            fst (start_download ''playlist/abc'' s),
            threads (snd (start_download ''playlist/abc'' s))))
      (download_worker env_rock (\<lambda>i. False) ''not a url''
         (snd (start_download ''not a url'' (init ''/home/u'' {}))))
     = Some (''error'', True, Failure ''Download already in progress'', [''not a url''])"
    by code_simp
  show "p_status (download_progress
        (snd (stop_download
           (loop_entry 1 (snd (start_download ''playlist/abc'' (init ''/home/u'' {})))))))
       = ''downloading''"
    by (simp add: stop_download_def)
  show "start_download ''playlist/abc''
        (snd (stop_download
           (loop_entry 1 (snd (start_download ''playlist/abc'' (init ''/home/u'' {}))))))
       = (Success ''Download started'',
          (snd (stop_download
             (loop_entry 1 (snd (start_download ''playlist/abc'' (init ''/home/u'' {}))))))
          \<lparr>threads := [''playlist/abc'', ''playlist/abc'']\<rparr>)"
    by (simp add: start_download_def stop_download_def init_def)
qed

text \<open>
  C1: a failure confined to one track should never end the run with status \<open>error\<close>:
  the worker returns \<open>False\<close> for the track and the run goes on. The worker does so, also
  for a slot without a track (\<open>track_info['track']\<close> is \<open>None\<close>). But \<open>download_worker\<close>
  builds the label \<open>current_track\<close> from \<open>track_info['track']\<close> before it calls the
  worker, without the worker's guard: on the playlist of \<open>env_gap\<close>, whose first slot is
  empty, the subscript raises, the handler of the run sets the status \<open>error\<close>, and
  neither the worker nor the search is ever called, not even for the playable second
  track; no success count is recorded.
\<close>

theorem unplayable_slot_ends_run_in_error:
  "download_track env_gap None ''/music'' (init ''/home/u'' {}) = (False, init ''/home/u'' {})
   \<and> map_option
        (\<lambda>s. (p_status (download_progress s), p_current (download_progress s),
              p_total (download_progress s), p_successful (download_progress s),
              p_error (download_progress s), calls s))
        (download_worker env_gap (\<lambda>i. False) ''playlist/abc'' (init ''/home/u'' {}))
       = Some (''error'', 1, 2, None,
               Some (CHR 0x27 # ''NoneType'' @ CHR 0x27 # '' object is not subscriptable''), [])"
proof
  show "download_track env_gap None ''/music'' (init ''/home/u'' {}) = (False, init ''/home/u'' {})"
    by (rule download_track_unplayable)
  show "map_option
        (\<lambda>s. (p_status (download_progress s), p_current (download_progress s),
              p_total (download_progress s), p_successful (download_progress s),
              p_error (download_progress s), calls s))
        (download_worker env_gap (\<lambda>i. False) ''playlist/abc'' (init ''/home/u'' {}))
       = Some (''error'', 1, 2, None,
               Some (CHR 0x27 # ''NoneType'' @ CHR 0x27 # '' object is not subscriptable''), [])"
    by code_simp
qed

section \<open>The status of the progress record\<close>

lemma track_loop_statuses:
  "track_loop E stops folder i tracks n s = (r, s') \<Longrightarrow>
   \<exists>new m. snapshots s' = snapshots s @ new
       \<and> map p_status new
           = replicate m (p_status (download_progress s))
             @ (if r = Inr Cancelled then [''cancelled''] else [])
       \<and> p_status (download_progress s')
           = (if r = Inr Cancelled then ''cancelled'' else p_status (download_progress s))"
proof (induction tracks arbitrary: i n s)
  case Nil
  then have "r = Inr (Finished n)" "s' = s" by simp_all
  then show ?case by (intro exI [of _ "[]"] exI [of _ 0]) simp
next
  case (Cons ti rest)
  let ?st = "p_status (download_progress s)"
  consider (stop) "stops i \<or> \<not> is_downloading s"
    | (err) e where "\<not> stops i" "is_downloading s" "track_label ti = Inl e"
    | (go) label where "\<not> stops i" "is_downloading s" "track_label ti = Inr label"
    by (cases "track_label ti") auto
  then show ?case
  proof cases
    case stop
    from Cons.prems
      track_loop_stop [where stops = stops and i = i and s = s, OF stop, of E folder ti rest n]
    have "r = Inr Cancelled"
      "s' = set_progress (\<lambda>p. p\<lparr>p_status := ''cancelled''\<rparr>) (s\<lparr>is_downloading := False\<rparr>)"
      by simp_all
    then show ?thesis
      by (intro exI [of _ "[(download_progress s)\<lparr>p_status := ''cancelled''\<rparr>]"] exI [of _ 0]) simp
  next
    case err
    from Cons.prems track_loop_label_error [of stops i s ti e E folder rest n] err
    have "r = Inl e" "s' = set_progress (\<lambda>p. p\<lparr>p_current := i + 1\<rparr>) s"
      by simp_all
    then show ?thesis
      by (intro exI [of _ "[(download_progress s)\<lparr>p_current := i + 1\<rparr>]"] exI [of _ 1]) simp
  next
    case go
    let ?p1 = "(download_progress s)\<lparr>p_current := i + 1\<rparr>"
    let ?p2 = "?p1\<lparr>p_current_track := Some label\<rparr>"
    let ?s3 = "log_call (Worker i)
              (set_progress (\<lambda>p. p\<lparr>p_current_track := Some label\<rparr>)
                 (set_progress (\<lambda>p. p\<lparr>p_current := i + 1\<rparr>) s))"
    obtain ok s4 where w: "download_track E ti folder ?s3 = (ok, s4)"
      by (cases "download_track E ti folder ?s3")
    note fr = download_track_frame [OF w]
    have "track_loop E stops folder i (ti # rest) n s
           = track_loop E stops folder (i + 1) rest (if ok then n + 1 else n) s4"
      using go w by (rule track_loop_step)
    with Cons.prems have "track_loop E stops folder (i + 1) rest (if ok then n + 1 else n) s4 = (r, s')"
      by simp
    from Cons.IH [OF this] obtain new m where
      m: "snapshots s' = snapshots s4 @ new"
       "map p_status new = replicate m (p_status (download_progress s4))
             @ (if r = Inr Cancelled then [''cancelled''] else [])"
       "p_status (download_progress s')
           = (if r = Inr Cancelled then ''cancelled'' else p_status (download_progress s4))"
      by blast
    have st4: "p_status (download_progress s4) = ?st" using fr by simp
    have sn4: "snapshots s4 = snapshots s @ [?p1, ?p2]"
      using fr by simp
    show ?thesis
      using m unfolding st4 sn4
      by (intro exI [of _ "[?p1, ?p2] @ new"] exI [of _ "Suc (Suc m)"]) simp
  qed
qed

lemma remdups_adj_replicate_skip:
  "remdups_adj (x # replicate m x @ ys) = remdups_adj (x # ys)"
  by (induction m) simp_all

lemma on_exception_simps [simp]:
  "snapshots (on_exception e s)
     = snapshots s @ [(download_progress s)\<lparr>p_status := ''error''\<rparr>,
                      (download_progress s)\<lparr>p_status := ''error'', p_error := Some (str_exn e)\<rparr>]"
  "download_progress (on_exception e s)
     = (download_progress s)\<lparr>p_status := ''error'', p_error := Some (str_exn e)\<rparr>"
  "\<not> is_downloading (on_exception e s)"
  "files (on_exception e s) = files s"
  "calls (on_exception e s) = calls s"
  by (simp_all add: on_exception_def)

text \<open>The shapes of the status sequence a run writes.\<close>

lemma download_worker_statuses:
  assumes "download_worker E stops url s0 = Some s'"
  shows "\<exists>new. snapshots s' = snapshots s0 @ new
     \<and> (map p_status new = [''starting'', ''error'', ''error'']
        \<or> (\<exists>m tl. map p_status new
               = ''starting'' # ''starting'' # ''downloading'' # replicate m ''downloading'' @ tl
             \<and> (tl = [''cancelled''] \<or> tl = [''error'', ''error'']
                  \<or> tl = [''completed'', ''completed''])))
     \<and> p_status (download_progress s') = last (map p_status new)"
proof (cases "extract_playlist_id url")
  case None
  with assms have "s' = set_progress (\<lambda>p. p\<lparr>p_error := Some ''Invalid playlist URL''\<rparr>)
                     (set_progress (\<lambda>p. p\<lparr>p_status := ''error''\<rparr>)
                        (put_progress starting_progress (s0\<lparr>is_downloading := True\<rparr>)))"
    by (simp add: download_worker_def Let_def)
  then show ?thesis
    by (intro exI [of _ "[starting_progress, starting_progress\<lparr>p_status := ''error''\<rparr>,
          starting_progress\<lparr>p_status := ''error'', p_error := Some ''Invalid playlist URL''\<rparr>]"])
       (simp add: starting_progress_def)
next
  case (Some pid)
  let ?s1 = "put_progress starting_progress (s0\<lparr>is_downloading := True\<rparr>)"
  have early: ?thesis if "s' = on_exception e ?s1" for e
    unfolding that
    by (intro exI [of _ "[starting_progress, starting_progress\<lparr>p_status := ''error''\<rparr>,
          starting_progress\<lparr>p_status := ''error'', p_error := Some (str_exn e)\<rparr>]"])
       (simp add: starting_progress_def)
  show ?thesis
  proof (cases "sp_playlist E pid")
    case (Inl e)
    with assms Some have "s' = on_exception e ?s1" by (simp add: download_worker_def Let_def)
    then show ?thesis by (rule early)
  next
    case (Inr name)
    let ?folder = "path_join (download_path s0) (sanitize_filename name)"
    show ?thesis
    proof (cases "makedirs E ?folder")
      case (Some e)
      with assms \<open>extract_playlist_id url = Some pid\<close> Inr have "s' = on_exception e ?s1"
        by (simp add: download_worker_def Let_def)
      then show ?thesis by (rule early)
    next
      case None
      note mk = None
      show ?thesis
      proof (cases "get_playlist_tracks (sp_playlist_tracks E pid)")
        case None
        with assms \<open>extract_playlist_id url = Some pid\<close> Inr mk show ?thesis
          by (simp add: download_worker_def Let_def)
      next
        case (Some res)
        show ?thesis
        proof (cases res)
          case (Inl e)
          with assms \<open>extract_playlist_id url = Some pid\<close> Inr mk Some
          have "s' = on_exception e ?s1" by (simp add: download_worker_def Let_def)
          then show ?thesis by (rule early)
        next
          case (Inr tracks)
          let ?entry = "loop_entry (length tracks) s0"
          obtain r s where loop: "track_loop E stops ?folder 0 tracks 0 ?entry = (r, s)"
            by (cases "track_loop E stops ?folder 0 tracks 0 ?entry")
          from track_loop_statuses [OF loop] obtain new m where
            new: "snapshots s = snapshots ?entry @ new"
              "map p_status new = replicate m ''downloading''
                 @ (if r = Inr Cancelled then [''cancelled''] else [])"
              "p_status (download_progress s) = (if r = Inr Cancelled then ''cancelled'' else ''downloading'')"
            by (auto simp: starting_progress_def)
          note dw = download_worker_loop [OF \<open>extract_playlist_id url = Some pid\<close>
              \<open>sp_playlist E pid = Inr name\<close> mk, of tracks stops]
          have dw': "download_worker E stops url s0 =
             (case (r, s) of
                (Inl e, s) \<Rightarrow> Some (on_exception e s)
              | (Inr Cancelled, s) \<Rightarrow> Some s
              | (Inr (Finished n), s) \<Rightarrow>
                  Some ((set_progress (\<lambda>p. p\<lparr>p_successful := Some n\<rparr>)
                   (set_progress (\<lambda>p. p\<lparr>p_status := ''completed''\<rparr>) s))
                \<lparr>is_downloading := False\<rparr>))"
            using dw Some Inr loop by simp
          let ?pre = "[starting_progress, starting_progress\<lparr>p_total := length tracks\<rparr>,
               starting_progress\<lparr>p_total := length tracks, p_status := ''downloading''\<rparr>]"
          show ?thesis
          proof (cases r)
            case (Inl e)
            with dw' assms have s': "s' = on_exception e s" by simp
            show ?thesis unfolding s'
              using new Inl
              by (intro exI [of _ "?pre @ new @ [(download_progress s)\<lparr>p_status := ''error''\<rparr>,
                      (download_progress s)\<lparr>p_status := ''error'', p_error := Some (str_exn e)\<rparr>]"])
                 (auto simp: starting_progress_def)
          next
            case (Inr ex)
            show ?thesis
            proof (cases ex)
              case Cancelled
              with dw' assms Inr have s': "s' = s" by simp
              show ?thesis unfolding s'
                using new Inr Cancelled
                by (intro exI [of _ "?pre @ new"]) (auto simp: starting_progress_def)
            next
              case (Finished c)
              with dw' assms Inr have s': "s' = (set_progress (\<lambda>p. p\<lparr>p_successful := Some c\<rparr>)
                   (set_progress (\<lambda>p. p\<lparr>p_status := ''completed''\<rparr>) s))
                \<lparr>is_downloading := False\<rparr>" by simp
              show ?thesis unfolding s'
                using new Inr Finished
                by (intro exI [of _ "?pre @ new @ [(download_progress s)\<lparr>p_status := ''completed''\<rparr>,
                      (download_progress s)\<lparr>p_status := ''completed'', p_successful := Some c\<rparr>]"])
                   (auto simp: starting_progress_def)
            qed
          qed
        qed
      qed
    qed
  qed
qed

lemma download_worker_None_iff:
  "download_worker E stops url s0 = None \<longleftrightarrow>
     (\<exists>pid name. extract_playlist_id url = Some pid \<and> sp_playlist E pid = Inr name
        \<and> makedirs E (path_join (download_path s0) (sanitize_filename name)) = None
        \<and> get_playlist_tracks (sp_playlist_tracks E pid) = None)"
  by (auto simp: download_worker_def Let_def
      split: option.splits sum.splits prod.splits loop_exit.splits)

lemma status_set_generic:
  "xs = a # a # d # replicate m d @ ys \<Longrightarrow> set ys \<subseteq> S \<Longrightarrow> a \<in> S \<Longrightarrow> d \<in> S
     \<Longrightarrow> set xs \<subseteq> S"
  by auto

text \<open>
  C3, as the code has it: the status is \<open>idle\<close> at construction. A run that ends has
  extended the record of written values, and the statuses it wrote are, in this order,
  \<open>starting\<close> and then either \<open>error\<close> at once (the URL does not parse, or the metadata or
  the track listing fails) or \<open>downloading\<close> followed by exactly one of \<open>completed\<close>,
  \<open>cancelled\<close>, \<open>error\<close>; the final status is that terminal one. A run never writes
  \<open>idle\<close>: the next run resets the status to \<open>starting\<close>. So the status is always one of
  the six values. The only run that does not end is one whose track listing never ends.
\<close>

theorem status_lifecycle:
  "p_status (download_progress (init home fs)) = ''idle''
   \<and> (download_worker E stops url s0 = Some s' \<longrightarrow>
        snapshots s' = snapshots s0 @ written s0 s'
        \<and> status_trace (written s0 s')
             \<in> {[''starting'', ''error''],
                 [''starting'', ''downloading'', ''completed''],
                 [''starting'', ''downloading'', ''cancelled''],
                 [''starting'', ''downloading'', ''error'']}
        \<and> p_status (download_progress s') = last (status_trace (written s0 s'))
        \<and> set (map p_status (written s0 s'))
             \<subseteq> {''starting'', ''downloading'', ''completed'', ''cancelled'', ''error''})
   \<and> (download_worker E stops url s0 = None \<longleftrightarrow>
        (\<exists>pid name. extract_playlist_id url = Some pid \<and> sp_playlist E pid = Inr name
           \<and> makedirs E (path_join (download_path s0) (sanitize_filename name)) = None
           \<and> get_playlist_tracks (sp_playlist_tracks E pid) = None))"
proof (intro conjI impI)
  show "p_status (download_progress (init home fs)) = ''idle''"
    by (simp add: init_def idle_progress_def)
  show "download_worker E stops url s0 = None \<longleftrightarrow>
        (\<exists>pid name. extract_playlist_id url = Some pid \<and> sp_playlist E pid = Inr name
           \<and> makedirs E (path_join (download_path s0) (sanitize_filename name)) = None
           \<and> get_playlist_tracks (sp_playlist_tracks E pid) = None)"
    by (rule download_worker_None_iff)
next
  assume run: "download_worker E stops url s0 = Some s'"
  from download_worker_statuses [OF run] obtain new where
    all: "snapshots s' = snapshots s0 @ new
     \<and> (map p_status new = [''starting'', ''error'', ''error'']
        \<or> (\<exists>m tl. map p_status new
               = ''starting'' # ''starting'' # ''downloading'' # replicate m ''downloading'' @ tl
             \<and> (tl = [''cancelled''] \<or> tl = [''error'', ''error'']
                  \<or> tl = [''completed'', ''completed''])))
     \<and> p_status (download_progress s') = last (map p_status new)" ..
  note new = all [THEN conjunct1]
  note shape = all [THEN conjunct2, THEN conjunct1]
  note fin = all [THEN conjunct2, THEN conjunct2]
  have w: "written s0 s' = new" by (simp add: written_def new)
  show "snapshots s' = snapshots s0 @ written s0 s'" by (simp add: w new)
  show "p_status (download_progress s') = last (status_trace (written s0 s'))"
    by (simp add: w fin status_trace_def)
  from shape show "status_trace (written s0 s')
             \<in> {[''starting'', ''error''],
                 [''starting'', ''downloading'', ''completed''],
                 [''starting'', ''downloading'', ''cancelled''],
                 [''starting'', ''downloading'', ''error'']}"
  proof
    assume "map p_status new = [''starting'', ''error'', ''error'']"
    then show ?thesis by (simp add: w status_trace_def)
  next
    assume "\<exists>m tl. map p_status new
               = ''starting'' # ''starting'' # ''downloading'' # replicate m ''downloading'' @ tl
             \<and> (tl = [''cancelled''] \<or> tl = [''error'', ''error'']
                  \<or> tl = [''completed'', ''completed''])"
    then obtain m tl where
      both: "map p_status new
               = ''starting'' # ''starting'' # ''downloading'' # replicate m ''downloading'' @ tl
         \<and> (tl = [''cancelled''] \<or> tl = [''error'', ''error'']
                  \<or> tl = [''completed'', ''completed''])" by (elim exE)
    note eq = both [THEN conjunct1]
    note tl = both [THEN conjunct2]
    have "status_trace new = ''starting'' # remdups_adj (''downloading'' # tl)"
      by (simp add: status_trace_def eq remdups_adj_replicate_skip)
    with tl show ?thesis unfolding w by auto
  qed
  from shape show "set (map p_status (written s0 s'))
             \<subseteq> {''starting'', ''downloading'', ''completed'', ''cancelled'', ''error''}"
  proof
    assume a: "map p_status new = [''starting'', ''error'', ''error'']"
    show ?thesis unfolding w a by simp
  next
    assume "\<exists>m tl. map p_status new
               = ''starting'' # ''starting'' # ''downloading'' # replicate m ''downloading'' @ tl
             \<and> (tl = [''cancelled''] \<or> tl = [''error'', ''error'']
                  \<or> tl = [''completed'', ''completed''])"
    then obtain m tl where
      both: "map p_status new
               = ''starting'' # ''starting'' # ''downloading'' # replicate m ''downloading'' @ tl
         \<and> (tl = [''cancelled''] \<or> tl = [''error'', ''error'']
                  \<or> tl = [''completed'', ''completed''])" by (elim exE)
    note eq = both [THEN conjunct1]
    have "set tl \<subseteq> {''starting'', ''downloading'', ''completed'', ''cancelled'', ''error''}"
      using both [THEN conjunct2] by auto
    then show ?thesis unfolding w
      by (rule status_set_generic [OF eq]) simp_all
  qed
qed

text \<open>
  C3 as stated fails on two counts. A run on a URL that does not parse goes from
  \<open>starting\<close> to \<open>error\<close> without passing through \<open>downloading\<close>; and of two runs in a
  row, the second takes the status from \<open>completed\<close> to \<open>starting\<close>: it is not reset to
  \<open>idle\<close>, which only the constructor writes.
\<close>

theorem status_lifecycle_counterexample:
  "map_option (\<lambda>s. status_trace (snapshots s))
      (download_worker env_rock (\<lambda>i. False) ''not a url'' (init ''/home/u'' {}))
     = Some [''idle'', ''starting'', ''error'']
   \<and> map_option (\<lambda>s. status_trace (snapshots s))
        (Option.bind
           (download_worker env_rock (\<lambda>i. False) ''playlist/abc'' (init ''/home/u'' {}))
           (download_worker env_rock (\<lambda>i. False) ''playlist/abc''))
     = Some [''idle'', ''starting'', ''downloading'', ''completed'',
             ''starting'', ''downloading'', ''completed'']"
proof
  show "map_option (\<lambda>s. status_trace (snapshots s))
      (download_worker env_rock (\<lambda>i. False) ''not a url'' (init ''/home/u'' {}))
     = Some [''idle'', ''starting'', ''error'']"
    by code_simp
  show "map_option (\<lambda>s. status_trace (snapshots s))
        (Option.bind
           (download_worker env_rock (\<lambda>i. False) ''playlist/abc'' (init ''/home/u'' {}))
           (download_worker env_rock (\<lambda>i. False) ''playlist/abc''))
     = Some [''idle'', ''starting'', ''downloading'', ''completed'',
             ''starting'', ''downloading'', ''completed'']"
    by code_simp
qed

theorem status_lifecycle_witness:
  "\<exists>s'. download_worker env_rock (\<lambda>i. False) ''playlist/abc'' (init ''/home/u'' {}) = Some s'
      \<and> status_trace (written (init ''/home/u'' {}) s') = [''starting'', ''downloading'', ''completed'']
      \<and> p_status (download_progress s') = ''completed''"
proof -
  let ?s0 = "init ''/home/u'' {}"
  let ?run = "download_worker env_rock (\<lambda>i. False) ''playlist/abc'' ?s0"
  have tr: "map_option (\<lambda>s. status_trace (written ?s0 s)) ?run
      = Some [''starting'', ''downloading'', ''completed'']"
    by code_simp
  then obtain s' where run: "?run = Some s'"
    and trace: "status_trace (written ?s0 s') = [''starting'', ''downloading'', ''completed'']"
    by (cases ?run) simp_all
  note t = status_lifecycle [of "''/home/u''" "{}" env_rock "\<lambda>i. False" "''playlist/abc''" ?s0 s',
      THEN conjunct2, THEN conjunct1, THEN mp, OF run]
  have "p_status (download_progress s') = last (status_trace (written ?s0 s'))"
    by (rule t [THEN conjunct2, THEN conjunct2, THEN conjunct1])
  then have "p_status (download_progress s') = ''completed''"
    unfolding trace by simp
  with run trace show ?thesis by (intro exI [of _ s'] conjI)
qed

section \<open>Resuming over the same destination\<close>


















end
